theory Spec2Isabelle
  imports Main "HOL-Library.Char_ord" "HOL-Library.List_Lexorder"
begin

section \<open>The mock document store of \<^verbatim>\<open>src/backend/database.py\<close>\<close>

text \<open>
  The module defines \<^verbatim>\<open>MockCollection\<close>, an in-memory stand-in for a MongoDB
  collection. This theory embeds its methods as functions over Python values. An
  exception of the source is the \<open>Inl\<close> branch of a sum; the mutable \<^verbatim>\<open>self.data\<close>
  is a value passed in and returned.
\<close>

subsection \<open>Python values\<close>

text \<open>
  The values a document can hold: \<^verbatim>\<open>None\<close>, booleans, integers, strings, lists and
  dictionaries with string keys. A dictionary keeps its insertion order, so it is an
  association list; a well-formed one has distinct keys. Floats, tuples and sets are
  outside the model. Characters are bytes, ordered by their code.
\<close>

datatype error = TypeError | AttributeError | KeyError

datatype val = VNone | VBool bool | VInt int | VStr string
  | VList "val list" | VDict "(string \<times> val) list"

type_synonym dict = "(string \<times> val) list"

text \<open>\<^verbatim>\<open>bool\<close> is a subclass of \<^verbatim>\<open>int\<close>: \<^verbatim>\<open>True == 1\<close> and \<^verbatim>\<open>False < 2\<close>.\<close>

fun is_number :: "val \<Rightarrow> bool" where
  "is_number (VBool b) = True"
| "is_number (VInt i) = True"
| "is_number v = False"

fun num_of :: "val \<Rightarrow> int" where
  "num_of (VBool b) = (if b then 1 else 0)"
| "num_of (VInt i) = i"
| "num_of v = 0"

fun is_str :: "val \<Rightarrow> bool" where
  "is_str (VStr s) = True"
| "is_str v = False"

fun str_of :: "val \<Rightarrow> string" where
  "str_of (VStr s) = s"
| "str_of v = []"

text \<open>
  \<^verbatim>\<open>a == b\<close>. Lists are equal elementwise; dictionaries are equal when they have
  the same number of keys and every key of the left one is bound to an equal value in
  the right one, whatever the order. Values of different kinds are unequal, and
  \<^verbatim>\<open>==\<close> never raises on these values.
\<close>

fun py_eq :: "val \<Rightarrow> val \<Rightarrow> bool" where
  "py_eq VNone w = (w = VNone)"
| "py_eq (VBool a) w = (is_number w \<and> num_of w = (if a then 1 else 0))"
| "py_eq (VInt a) w = (is_number w \<and> num_of w = a)"
| "py_eq (VStr s) w = (w = VStr s)"
| "py_eq (VList xs) w =
     (case w of VList ys \<Rightarrow> list_all2 py_eq xs ys | _ \<Rightarrow> False)"
| "py_eq (VDict a) w =
     (case w of
        VDict b \<Rightarrow> length a = length b \<and>
          list_all (\<lambda>kv. case map_of b (fst kv) of
                            None \<Rightarrow> False
                          | Some u \<Rightarrow> py_eq (snd kv) u) a
      | _ \<Rightarrow> False)"

text \<open>
  \<^verbatim>\<open>a < b\<close>. Numbers compare by value, strings lexicographically, lists by their
  first pair of unequal elements (or by length when one is a prefix of the other).
  Every other pair of operands raises \<^verbatim>\<open>TypeError\<close>.
\<close>

fun py_lt :: "val \<Rightarrow> val \<Rightarrow> error + bool"
  and py_lt_list :: "val list \<Rightarrow> val list \<Rightarrow> error + bool" where
  "py_lt (VBool a) w = (if is_number w then Inr ((if a then 1 else 0) < num_of w) else Inl TypeError)"
| "py_lt (VInt a) w = (if is_number w then Inr (a < num_of w) else Inl TypeError)"
| "py_lt (VStr s) w = (case w of VStr t \<Rightarrow> Inr (s < t) | _ \<Rightarrow> Inl TypeError)"
| "py_lt (VList xs) w = (case w of VList ys \<Rightarrow> py_lt_list xs ys | _ \<Rightarrow> Inl TypeError)"
| "py_lt VNone w = Inl TypeError"
| "py_lt (VDict d) w = Inl TypeError"
| "py_lt_list [] ys = Inr (ys \<noteq> [])"
| "py_lt_list (x # xs) ys =
     (case ys of
        [] \<Rightarrow> Inr False
      | y # ys' \<Rightarrow> if py_eq x y then py_lt_list xs ys' else py_lt x y)"

text \<open>\<^verbatim>\<open>a > b\<close> is the reflected comparison: on these values it is \<^verbatim>\<open>b < a\<close>.\<close>

definition py_gt :: "val \<Rightarrow> val \<Rightarrow> error + bool" where
  "py_gt a b = py_lt b a"


text \<open>Lists and dictionaries cannot be hashed: they are no dictionary keys or set elements.\<close>

fun hashable :: "val \<Rightarrow> bool" where
  "hashable (VList xs) = False"
| "hashable (VDict d) = False"
| "hashable v = True"

text \<open>\<^verbatim>\<open>t in s\<close> on strings: \<open>t\<close> occurs in \<open>s\<close> as a contiguous run.\<close>

fun substring :: "string \<Rightarrow> string \<Rightarrow> bool" where
  "substring t [] = (t = [])"
| "substring t (c # cs) = (take (length t) (c # cs) = t \<or> substring t cs)"

text \<open>
  \<^verbatim>\<open>item in container\<close>. A list is searched with \<^verbatim>\<open>==\<close>; a string accepts only
  a string on the left; a dictionary hashes the item and looks among its keys; any
  other container raises \<^verbatim>\<open>TypeError\<close>.
\<close>

fun py_in :: "val \<Rightarrow> val \<Rightarrow> error + bool" where
  "py_in item (VList xs) = Inr (list_ex (py_eq item) xs)"
| "py_in item (VStr s) = (case item of VStr t \<Rightarrow> Inr (substring t s) | _ \<Rightarrow> Inl TypeError)"
| "py_in item (VDict d) =
     (if hashable item then Inr (list_ex (\<lambda>kv. py_eq item (VStr (fst kv))) d)
      else Inl TypeError)"
| "py_in item c = Inl TypeError"

text \<open>Iteration: the elements of a list, the characters of a string, the keys of a dictionary.\<close>

fun py_iter :: "val \<Rightarrow> error + val list" where
  "py_iter (VList xs) = Inr xs"
| "py_iter (VStr s) = Inr (map (\<lambda>c. VStr [c]) s)"
| "py_iter (VDict d) = Inr (map (\<lambda>kv. VStr (fst kv)) d)"
| "py_iter v = Inl TypeError"

text \<open>\<^verbatim>\<open>d[k] = v\<close> on a dictionary: an existing key keeps its place, a new one goes last.\<close>

definition dict_set :: "(string \<times> 'a) list \<Rightarrow> string \<Rightarrow> 'a \<Rightarrow> (string \<times> 'a) list" where
  "dict_set d k v =
     (if map_of d k = None then d @ [(k, v)]
      else map (\<lambda>kv. if fst kv = k then (k, v) else kv) d)"

text \<open>\<^verbatim>\<open>xs.remove(v)\<close>: the first element equal to \<open>v\<close> is dropped.\<close>

fun list_remove :: "val \<Rightarrow> val list \<Rightarrow> val list" where
  "list_remove v [] = []"
| "list_remove v (x # xs) = (if py_eq x v then xs else x # list_remove v xs)"

text \<open>
  \<^verbatim>\<open>key.split('.')\<close>: a character other than the dot joins the first part of
  what follows it. The split of a string is never empty.
\<close>

fun split_dot :: "string \<Rightarrow> string list" where
  "split_dot [] = [[]]"
| "split_dot (c # cs) =
     (if c = CHR ''.'' then [] # split_dot cs
      else (case split_dot cs of
              [] \<Rightarrow> [[c]]
            | part # parts \<Rightarrow> (c # part) # parts))"

subsection \<open>The collection\<close>

text \<open>
  \<^verbatim>\<open>self.data\<close> maps a document's key to the document without its \<^verbatim>\<open>_id\<close>. The
  key is whatever hashable value the caller gave; looking a key up compares with
  \<^verbatim>\<open>==\<close>.
\<close>

type_synonym store = "(val \<times> dict) list"

fun store_get :: "store \<Rightarrow> val \<Rightarrow> dict option" where
  "store_get [] k = None"
| "store_get ((k', d) # s) k = (if py_eq k' k then Some d else store_get s k)"

fun store_set :: "store \<Rightarrow> val \<Rightarrow> dict \<Rightarrow> store" where
  "store_set [] k d = [(k, d)]"
| "store_set ((k', d') # s) k d =
     (if py_eq k' k then (k', d) # s else (k', d') # store_set s k d)"

subsection \<open>\<^verbatim>\<open>count_documents\<close> and \<^verbatim>\<open>insert_one\<close>\<close>

definition count_documents :: "store \<Rightarrow> val \<Rightarrow> int" where
  "count_documents s query = int (length s)"


subsection \<open>\<^verbatim>\<open>find_one\<close>\<close>

definition find_one :: "store \<Rightarrow> val \<Rightarrow> error + dict option" where
  "find_one s query =
     (case query of
        VDict q \<Rightarrow>
          (case map_of q ''_id'' of
             Some doc_id \<Rightarrow>
               if hashable doc_id then
                 (case store_get s doc_id of
                    Some d \<Rightarrow> Inr (Some (dict_set d ''_id'' doc_id))
                  | None \<Rightarrow> Inr None)
               else Inl TypeError
           | None \<Rightarrow> Inr None)
      | _ \<Rightarrow> Inr None)"

subsection \<open>\<^verbatim>\<open>_match_query\<close> and \<^verbatim>\<open>find\<close>\<close>

text \<open>
  \<^verbatim>\<open>any(item in current_val for item in value['$in'])\<close>: the items are tried in
  order, the first hit ends the search, and an exception of a membership test ends it
  too.
\<close>

fun any_in :: "val list \<Rightarrow> val \<Rightarrow> error + bool" where
  "any_in [] cur = Inr False"
| "any_in (item # items) cur =
     (case py_in item cur of
        Inl e \<Rightarrow> Inl e
      | Inr True \<Rightarrow> Inr True
      | Inr False \<Rightarrow> any_in items cur)"

text \<open>
  The test of one clause's value against the field's value (lines 74-86 for a dotted
  key, and the same code on \<^verbatim>\<open>doc[key]\<close> in lines 90-102). \<open>Inr False\<close> is the
  source's \<^verbatim>\<open>return False\<close>; \<open>Inr True\<close> lets the loop go on.
\<close>

definition check_value :: "val \<Rightarrow> val \<Rightarrow> error + bool" where
  "check_value cur value =
     (case value of
        VDict ops \<Rightarrow>
          (case map_of ops ''$in'' of
             Some vs \<Rightarrow>
               (case py_iter vs of
                  Inl e \<Rightarrow> Inl e
                | Inr items \<Rightarrow> any_in items cur)
           | None \<Rightarrow>
               (case map_of ops ''$gte'' of
                  Some b \<Rightarrow>
                    (case py_lt cur b of Inl e \<Rightarrow> Inl e | Inr r \<Rightarrow> Inr (\<not> r))
                | None \<Rightarrow>
                    (case map_of ops ''$lte'' of
                       Some b \<Rightarrow>
                         (case py_gt cur b of Inl e \<Rightarrow> Inl e | Inr r \<Rightarrow> Inr (\<not> r))
                     | None \<Rightarrow> Inr True)))
      | _ \<Rightarrow> Inr (py_eq cur value))"

text \<open>The walk along the parts of a dotted key; \<open>None\<close> is the source's \<^verbatim>\<open>return False\<close>.\<close>

fun traverse :: "val \<Rightarrow> string list \<Rightarrow> val option" where
  "traverse cur [] = Some cur"
| "traverse cur (part # parts) =
     (case cur of
        VDict d \<Rightarrow>
          (case map_of d part of
             Some v \<Rightarrow> traverse v parts
           | None \<Rightarrow> None)
      | _ \<Rightarrow> None)"

text \<open>The value a clause's key names in the document, if there is one.\<close>

definition field_value :: "dict \<Rightarrow> string \<Rightarrow> val option" where
  "field_value doc key =
     (if CHR ''.'' \<in> set key then traverse (VDict doc) (split_dot key)
      else map_of doc key)"

fun match_query :: "dict \<Rightarrow> dict \<Rightarrow> error + bool" where
  "match_query doc [] = Inr True"
| "match_query doc ((key, value) # query) =
     (case field_value doc key of
        None \<Rightarrow> Inr False
      | Some cur \<Rightarrow>
          (case check_value cur value of
             Inl e \<Rightarrow> Inl e
           | Inr False \<Rightarrow> Inr False
           | Inr True \<Rightarrow> match_query doc query))"

text \<open>
  \<^verbatim>\<open>find\<close>: \<^verbatim>\<open>query.items()\<close> exists only on a dictionary, and is reached only when
  the query is not \<^verbatim>\<open>None\<close> and the collection has a document.
\<close>

fun find_all :: "store \<Rightarrow> val \<Rightarrow> error + dict list" where
  "find_all [] query = Inr []"
| "find_all ((doc_id, doc_data) # s) query =
     (let doc = dict_set doc_data ''_id'' doc_id in
      case (case query of
              VNone \<Rightarrow> Inr True
            | VDict q \<Rightarrow> match_query doc q
            | _ \<Rightarrow> Inl AttributeError) of
        Inl e \<Rightarrow> Inl e
      | Inr keep \<Rightarrow>
          (case find_all s query of
             Inl e \<Rightarrow> Inl e
           | Inr result \<Rightarrow> Inr (if keep then doc # result else result)))"

subsection \<open>\<^verbatim>\<open>update_one\<close>\<close>

text \<open>
  The loop over \<^verbatim>\<open>update['$push'].items()\<close>, on the target document: \<^verbatim>\<open>append\<close>
  exists only on a list.
\<close>

fun push_all :: "dict \<Rightarrow> dict \<Rightarrow> error + dict" where
  "push_all d [] = Inr d"
| "push_all d ((field, value) # rest) =
     (case map_of d field of
        Some (VList xs) \<Rightarrow> push_all (dict_set d field (VList (xs @ [value]))) rest
      | Some _ \<Rightarrow> Inl AttributeError
      | None \<Rightarrow> push_all (dict_set d field (VList [value])) rest)"

text \<open>
  The loop over \<^verbatim>\<open>update['$pull'].items()\<close>: the membership test may raise, and
  \<^verbatim>\<open>remove\<close> exists only on a list.
\<close>

fun pull_all :: "dict \<Rightarrow> dict \<Rightarrow> error + dict" where
  "pull_all d [] = Inr d"
| "pull_all d ((field, value) # rest) =
     (case map_of d field of
        None \<Rightarrow> pull_all d rest
      | Some cur \<Rightarrow>
          (case py_in value cur of
             Inl e \<Rightarrow> Inl e
           | Inr False \<Rightarrow> pull_all d rest
           | Inr True \<Rightarrow>
               (case cur of
                  VList xs \<Rightarrow> pull_all (dict_set d field (VList (list_remove value xs))) rest
                | _ \<Rightarrow> Inl AttributeError)))"

text \<open>\<^verbatim>\<open>update[op].items()\<close> when \<^verbatim>\<open>op in update\<close>: only a dictionary has \<^verbatim>\<open>items\<close>.\<close>

definition apply_group ::
  "(dict \<Rightarrow> dict \<Rightarrow> error + dict) \<Rightarrow> string \<Rightarrow> dict \<Rightarrow> dict \<Rightarrow> error + dict" where
  "apply_group loop op update d =
     (case map_of update op of
        None \<Rightarrow> Inr d
      | Some (VDict items) \<Rightarrow> loop d items
      | Some _ \<Rightarrow> Inl AttributeError)"

text \<open>
  The result pairs the collection after the call with \<^verbatim>\<open>modified_count\<close>. An
  exception ends the call; the model does not keep the collection it leaves behind.
\<close>

definition update_one :: "store \<Rightarrow> val \<Rightarrow> dict \<Rightarrow> error + (store \<times> int)" where
  "update_one s query update =
     (case query of
        VDict q \<Rightarrow>
          (case map_of q ''_id'' of
             Some doc_id \<Rightarrow>
               if hashable doc_id then
                 (case store_get s doc_id of
                    Some d \<Rightarrow>
                      (case apply_group push_all ''$push'' update d of
                         Inl e \<Rightarrow> Inl e
                       | Inr d1 \<Rightarrow>
                           (case apply_group pull_all ''$pull'' update d1 of
                              Inl e \<Rightarrow> Inl e
                            | Inr d2 \<Rightarrow> Inr (store_set s doc_id d2, 1)))
                  | None \<Rightarrow> Inr (s, 0))
               else Inl TypeError
           | None \<Rightarrow> Inr (s, 0))
      | _ \<Rightarrow> Inr (s, 0))"

subsection \<open>\<^verbatim>\<open>aggregate\<close>\<close>

text \<open>
  \<^verbatim>\<open>obj[key]\<close> with a string key: a dictionary gives the value or raises
  \<^verbatim>\<open>KeyError\<close>; nothing else can be indexed by a string.
\<close>

fun py_getitem :: "val \<Rightarrow> string \<Rightarrow> error + val" where
  "py_getitem (VDict d) k = (case map_of d k of Some v \<Rightarrow> Inr v | None \<Rightarrow> Inl KeyError)"
| "py_getitem v k = Inl TypeError"

text \<open>
  The set \<^verbatim>\<open>result\<close> is the list of its elements in the order they came in:
  \<^verbatim>\<open>add\<close> keeps the element already there when an equal one arrives, and refuses
  a value that cannot be hashed.
\<close>

definition set_add :: "val list \<Rightarrow> val \<Rightarrow> val list" where
  "set_add result day = (if list_ex (py_eq day) result then result else result @ [day])"

fun add_days :: "val list \<Rightarrow> val list \<Rightarrow> error + val list" where
  "add_days result [] = Inr result"
| "add_days result (day # days) =
     (if hashable day then add_days (set_add result day) days else Inl TypeError)"

text \<open>The days one document contributes; none when the \<^verbatim>\<open>if\<close> of line 128 fails.\<close>

definition days_of :: "dict \<Rightarrow> error + val list" where
  "days_of doc_data =
     (case map_of doc_data ''schedule_details'' of
        None \<Rightarrow> Inr []
      | Some sd \<Rightarrow>
          (case py_in (VStr ''days'') sd of
             Inl e \<Rightarrow> Inl e
           | Inr False \<Rightarrow> Inr []
           | Inr True \<Rightarrow>
               (case py_getitem sd ''days'' of
                  Inl e \<Rightarrow> Inl e
                | Inr ds \<Rightarrow> py_iter ds)))"

fun collect_days :: "val list \<Rightarrow> dict list \<Rightarrow> error + val list" where
  "collect_days result [] = Inr result"
| "collect_days result (doc_data # rest) =
     (case days_of doc_data of
        Inl e \<Rightarrow> Inl e
      | Inr days \<Rightarrow>
          (case add_days result days of
             Inl e \<Rightarrow> Inl e
           | Inr result' \<Rightarrow> collect_days result' rest))"

text \<open>
  \<^verbatim>\<open>sorted(result)\<close>. The elements of a set are pairwise unequal, so their sorted
  order does not depend on the order in which the set yields them. Sorting two or
  more elements compares across kinds unless all are numbers or all are strings, and
  that comparison raises.
\<close>

definition py_sorted :: "val list \<Rightarrow> error + val list" where
  "py_sorted xs =
     (if length xs \<le> 1 then Inr xs
      else if list_all is_number xs then Inr (sort_key num_of xs)
      else if list_all is_str xs then Inr (sort_key str_of xs)
      else Inl TypeError)"

definition aggregate :: "store \<Rightarrow> val \<Rightarrow> error + val list" where
  "aggregate s pipeline =
     (case collect_days [] (map snd s) of
        Inl e \<Rightarrow> Inl e
      | Inr result \<Rightarrow>
          (case py_sorted result of
             Inl e \<Rightarrow> Inl e
           | Inr days \<Rightarrow> Inr (map (\<lambda>day. VDict [(''_id'', day)]) days)))"

subsection \<open>Well-typed updates\<close>

text \<open>
  An update is well typed for a document when each operator group it has is a
  dictionary and every field a group names is absent from the document or holds a
  list: then neither \<^verbatim>\<open>append\<close> nor \<^verbatim>\<open>remove\<close> can raise.
\<close>

definition list_or_absent :: "dict \<Rightarrow> string \<Rightarrow> bool" where
  "list_or_absent d f = (case map_of d f of None \<Rightarrow> True | Some (VList xs) \<Rightarrow> True | Some _ \<Rightarrow> False)"

definition group_ok :: "dict \<Rightarrow> dict \<Rightarrow> string \<Rightarrow> bool" where
  "group_ok d update op =
     (case map_of update op of
        None \<Rightarrow> True
      | Some (VDict items) \<Rightarrow> list_all (list_or_absent d) (map fst items)
      | Some _ \<Rightarrow> False)"

subsection \<open>Clauses of a filter\<close>

text \<open>
  A clause is satisfied when its key names a value in the document and the test of
  that value passes; it raises when the test raises.
\<close>

definition clause_sat :: "dict \<Rightarrow> string \<times> val \<Rightarrow> bool" where
  "clause_sat doc clause =
     (case field_value doc (fst clause) of
        None \<Rightarrow> False
      | Some cur \<Rightarrow> check_value cur (snd clause) = Inr True)"

definition clause_raises :: "dict \<Rightarrow> string \<times> val \<Rightarrow> bool" where
  "clause_raises doc clause =
     (case field_value doc (fst clause) of
        None \<Rightarrow> False
      | Some cur \<Rightarrow> isl (check_value cur (snd clause)))"

text \<open>
  The document \<^verbatim>\<open>find\<close> hands to the matcher and returns: the stored one with its
  key written back. A capacity is typed when it is absent or a number.
\<close>

definition materialise :: "val \<times> dict \<Rightarrow> dict" where
  "materialise kd = dict_set (snd kd) ''_id'' (fst kd)"

definition capacity_at_least :: "int \<Rightarrow> dict \<Rightarrow> bool" where
  "capacity_at_least n doc =
     (case map_of doc ''max_participants'' of
        None \<Rightarrow> False
      | Some v \<Rightarrow> is_number v \<and> n \<le> num_of v)"

definition capacity_typed :: "val \<times> dict \<Rightarrow> bool" where
  "capacity_typed kd =
     (case map_of (snd kd) ''max_participants'' of
        None \<Rightarrow> True
      | Some v \<Rightarrow> is_number v)"

subsection \<open>Lists in a document\<close>

text \<open>The list a field holds; the empty list when the field is absent.\<close>

definition field_list :: "dict \<Rightarrow> string \<Rightarrow> val list" where
  "field_list d f = (case map_of d f of Some (VList xs) \<Rightarrow> xs | _ \<Rightarrow> [])"

text \<open>
  The day names of a document, and the shape the data model gives them: where
  \<^verbatim>\<open>schedule_details\<close> is present it is a dictionary, and where that has
  \<^verbatim>\<open>days\<close> it is a list of strings.
\<close>

definition doc_days :: "dict \<Rightarrow> string list" where
  "doc_days doc_data =
     (case map_of doc_data ''schedule_details'' of
        Some (VDict sd) \<Rightarrow>
          (case map_of sd ''days'' of
             Some (VList ds) \<Rightarrow> map str_of ds
           | _ \<Rightarrow> [])
      | _ \<Rightarrow> [])"

definition days_typed :: "dict \<Rightarrow> bool" where
  "days_typed doc_data =
     (case map_of doc_data ''schedule_details'' of
        None \<Rightarrow> True
      | Some (VDict sd) \<Rightarrow>
          (case map_of sd ''days'' of
             None \<Rightarrow> True
           | Some (VList ds) \<Rightarrow> list_all is_str ds
           | Some _ \<Rightarrow> False)
      | Some _ \<Rightarrow> False)"

section \<open>The filter language, as the specification words it\<close>

text \<open>
  The specification gives a clause's value as a literal, to be matched exactly, or
  as an operator mapping with exactly one recognized key: \<^verbatim>\<open>$in\<close> with a list,
  \<^verbatim>\<open>$gte\<close> or \<^verbatim>\<open>$lte\<close>. Any other mapping is not a condition of this language.
\<close>

datatype condition = Literal val | In "val list" | Gte val | Lte val

fun condition_of :: "val \<Rightarrow> condition option" where
  "condition_of (VDict ops) =
     (case ops of
        [(op, operand)] \<Rightarrow>
          if op = ''$in'' then (case operand of VList vs \<Rightarrow> Some (In vs) | _ \<Rightarrow> None)
          else if op = ''$gte'' then Some (Gte operand)
          else if op = ''$lte'' then Some (Lte operand)
          else None
      | _ \<Rightarrow> None)"
| "condition_of v = Some (Literal v)"

text \<open>
  \<open>a\<close> is at least \<open>b\<close>, for two numbers or two strings; the specification
  compares nothing else.
\<close>

definition at_least :: "val \<Rightarrow> val \<Rightarrow> bool option" where
  "at_least a b =
     (if is_number a \<and> is_number b then Some (num_of b \<le> num_of a)
      else if is_str a \<and> is_str b then Some (str_of b \<le> str_of a)
      else None)"

text \<open>
  When a condition holds of a field's value: the literal equals it; the list-valued
  field shares an element with the operand of \<^verbatim>\<open>$in\<close>; the value is at least, or at
  most, the operand. \<open>None\<close> where the specification gives no meaning.
\<close>

fun holds :: "condition \<Rightarrow> val \<Rightarrow> bool option" where
  "holds (Literal v) cur = Some (py_eq cur v)"
| "holds (In vs) cur =
     (case cur of
        VList xs \<Rightarrow> Some (list_ex (\<lambda>item. list_ex (py_eq item) xs) vs)
      | _ \<Rightarrow> None)"
| "holds (Gte b) cur = at_least cur b"
| "holds (Lte b) cur = at_least b cur"

text \<open>
  A field path is cut at each separator; every segment but the last must name a
  mapping in the mapping reached so far, and the last names the value.
\<close>

function segments :: "string \<Rightarrow> string list" where
  "segments s =
     (if CHR ''.'' \<in> set s
      then takeWhile (\<lambda>c. c \<noteq> CHR ''.'') s # segments (tl (dropWhile (\<lambda>c. c \<noteq> CHR ''.'') s))
      else [s])"
  by pat_completeness auto
termination
proof (relation "measure length")
  show "wf (measure length)" by simp
next
  fix s :: string
  assume "CHR ''.'' \<in> set s"
  then have "dropWhile (\<lambda>c. c \<noteq> CHR ''.'') s \<noteq> []" by (simp add: dropWhile_eq_Nil_conv)
  then have "length (tl (dropWhile (\<lambda>c. c \<noteq> CHR ''.'') s)) < length (dropWhile (\<lambda>c. c \<noteq> CHR ''.'') s)"
    by simp
  also have "\<dots> \<le> length s" by (rule length_dropWhile_le)
  finally show "(tl (dropWhile (\<lambda>c. c \<noteq> CHR ''.'') s), s) \<in> measure length" by simp
qed

declare segments.simps [simp del]

fun get_path :: "dict \<Rightarrow> string list \<Rightarrow> val option" where
  "get_path d [] = None"
| "get_path d [p] = map_of d p"
| "get_path d (p # ps) =
     (case map_of d p of
        Some (VDict d') \<Rightarrow> get_path d' ps
      | _ \<Rightarrow> None)"

definition resolve :: "dict \<Rightarrow> string \<Rightarrow> val option" where
  "resolve doc key = get_path doc (segments key)"

text \<open>
  A document satisfies a clause when the clause's path resolves in it to a value
  of which the clause's condition holds; it does not when the path fails to resolve.
\<close>

definition satisfies :: "dict \<Rightarrow> string \<times> val \<Rightarrow> bool option" where
  "satisfies doc clause =
     (case condition_of (snd clause) of
        None \<Rightarrow> None
      | Some c \<Rightarrow>
          (case resolve doc (fst clause) of
             None \<Rightarrow> Some False
           | Some cur \<Rightarrow> holds c cur))"

section \<open>Objects and sharing: \<^verbatim>\<open>find_one\<close> on a heap\<close>


















section \<open>Properties\<close>

subsection \<open>Dictionaries and the collection\<close>

lemma map_of_replace:
  "map_of (map (\<lambda>kv. if fst kv = k then (k, v) else kv) d) k'
   = (if k' = k \<and> map_of d k \<noteq> None then Some v else map_of d k')"
  by (induction d) auto

lemma map_of_dict_set:
  "map_of (dict_set d k v) k' = (if k' = k then Some v else map_of d k')"
  by (auto simp: dict_set_def map_of_replace map_add_def split: option.splits)

lemma store_set_same: "store_get s k = Some d \<Longrightarrow> store_set s k d = s"
  by (induction s k rule: store_get.induct) (auto split: if_splits)

lemma list_or_absent_dict_set:
  "list_or_absent d g \<Longrightarrow> list_or_absent (dict_set d f (VList xs)) g"
  by (simp add: list_or_absent_def map_of_dict_set)

lemma push_all_ok:
  "list_all (list_or_absent d) (map fst items) \<Longrightarrow>
   \<exists>d'. push_all d items = Inr d' \<and> (\<forall>g. list_or_absent d g \<longrightarrow> list_or_absent d' g)"
proof (induction items arbitrary: d)
  case Nil
  then show ?case by simp
next
  case (Cons fv items)
  obtain f v where fv: "fv = (f, v)" by (cases fv)
  from Cons.prems fv have f: "list_or_absent d f"
    and rest: "list_all (list_or_absent d) (map fst items)" by simp_all
  show ?case
  proof (cases "map_of d f")
    case None
    let ?d1 = "dict_set d f (VList [v])"
    have "list_all (list_or_absent ?d1) (map fst items)"
      using rest by (simp add: list_all_iff list_or_absent_dict_set)
    from Cons.IH[OF this] obtain d' where
      "push_all ?d1 items = Inr d'" "\<forall>g. list_or_absent ?d1 g \<longrightarrow> list_or_absent d' g" by blast
    with None fv show ?thesis by (auto simp: list_or_absent_dict_set)
  next
    case (Some w)
    with f obtain xs where w: "w = VList xs"
      by (auto simp: list_or_absent_def split: val.splits)
    let ?d1 = "dict_set d f (VList (xs @ [v]))"
    have "list_all (list_or_absent ?d1) (map fst items)"
      using rest by (simp add: list_all_iff list_or_absent_dict_set)
    from Cons.IH[OF this] obtain d' where
      "push_all ?d1 items = Inr d'" "\<forall>g. list_or_absent ?d1 g \<longrightarrow> list_or_absent d' g" by blast
    with Some w fv show ?thesis by (auto simp: list_or_absent_dict_set)
  qed
qed

lemma pull_all_ok:
  "list_all (list_or_absent d) (map fst items) \<Longrightarrow> \<exists>d'. pull_all d items = Inr d'"
proof (induction items arbitrary: d)
  case Nil
  then show ?case by simp
next
  case (Cons fv items)
  obtain f v where fv: "fv = (f, v)" by (cases fv)
  from Cons.prems fv have f: "list_or_absent d f"
    and rest: "list_all (list_or_absent d) (map fst items)" by simp_all
  show ?case
  proof (cases "map_of d f")
    case None
    with Cons.IH[OF rest] fv show ?thesis by simp
  next
    case (Some w)
    with f obtain xs where w: "w = VList xs"
      by (auto simp: list_or_absent_def split: val.splits)
    let ?d1 = "dict_set d f (VList (list_remove v xs))"
    have "list_all (list_or_absent ?d1) (map fst items)"
      using rest by (simp add: list_all_iff list_or_absent_dict_set)
    from Cons.IH[OF this] Cons.IH[OF rest] Some w fv show ?thesis
      by (cases "list_ex (py_eq v) xs") auto
  qed
qed

lemma update_one_found:
  assumes "map_of q ''_id'' = Some k" "hashable k" "store_get s k = Some d"
  shows "update_one s (VDict q) u =
     (case apply_group push_all ''$push'' u d of
        Inl e \<Rightarrow> Inl e
      | Inr d1 \<Rightarrow>
          (case apply_group pull_all ''$pull'' u d1 of
             Inl e \<Rightarrow> Inl e
           | Inr d2 \<Rightarrow> Inr (store_set s k d2, 1)))"
  using assms by (simp add: update_one_def)

subsection \<open>Matching\<close>

lemma store_get_None: "store_get s k = None \<longleftrightarrow> \<not> list_ex (\<lambda>kd. py_eq (fst kd) k) s"
  by (induction s k rule: store_get.induct) auto

lemma match_query_sat:
  "match_query doc query = Inr True \<longleftrightarrow> list_all (clause_sat doc) query"
proof (induction query)
  case Nil
  show ?case by simp
next
  case (Cons c query)
  obtain k v where c: "c = (k, v)" by (cases c)
  show ?case
  proof (cases "field_value doc k")
    case None
    with c show ?thesis by (simp add: clause_sat_def)
  next
    case (Some cur)
    show ?thesis
    proof (cases "check_value cur v")
      case (Inl e)
      with Some c show ?thesis by (simp add: clause_sat_def)
    next
      case (Inr b)
      with Some c Cons.IH show ?thesis by (cases b) (simp_all add: clause_sat_def)
    qed
  qed
qed

lemma match_query_missing:
  "field_value doc k = None \<Longrightarrow> \<not> list_ex (clause_raises doc) pre \<Longrightarrow>
   match_query doc (pre @ (k, v) # rest) = Inr False"
proof (induction pre)
  case Nil
  then show ?case by simp
next
  case (Cons c pre)
  obtain k' v' where c: "c = (k', v')" by (cases c)
  show ?case
  proof (cases "field_value doc k'")
    case None
    with c show ?thesis by simp
  next
    case (Some cur)
    with Cons.prems c obtain b where b: "check_value cur v' = Inr b"
      by (cases "check_value cur v'") (auto simp: clause_raises_def)
    from Cons have "match_query doc (pre @ (k, v) # rest) = Inr False" by simp
    with Some b c show ?thesis by (cases b) simp_all
  qed
qed

lemma split_dot_plain: "CHR ''.'' \<notin> set b \<Longrightarrow> split_dot b = [b]"
  by (induction b) auto

lemma split_dot_append:
  "CHR ''.'' \<notin> set a \<Longrightarrow> split_dot (a @ CHR ''.'' # rest) = a # split_dot rest"
  by (induction a) auto

lemma any_in_list:
  "any_in items (VList xs) = Inr (list_ex (\<lambda>item. list_ex (py_eq item) xs) items)"
  by (induction items) (auto split: bool.splits)

lemma overlap_strings:
  "list_ex (\<lambda>item. list_ex (py_eq item) (map VStr xs)) (map VStr vs) \<longleftrightarrow> set vs \<inter> set xs \<noteq> {}"
  by (auto simp: list_ex_iff)

lemma py_lt_num: "is_number v \<Longrightarrow> py_lt v (VInt b) = Inr (num_of v < b)"
  by (cases v) auto

lemma find_all_gte:
  "list_all capacity_typed s \<Longrightarrow>
   find_all s (VDict [(''max_participants'', VDict [(''$gte'', VInt n)])])
   = Inr (filter (capacity_at_least n) (map materialise s))"
proof (induction s)
  case Nil
  show ?case by simp
next
  case (Cons kd s)
  obtain k d where kd: "kd = (k, d)" by (cases kd)
  let ?q = "VDict [(''max_participants'', VDict [(''$gte'', VInt n)])]"
  let ?doc = "materialise (k, d)"
  have mat: "dict_set d ''_id'' k = ?doc" by (simp add: materialise_def)
  have m: "map_of ?doc ''max_participants'' = map_of d ''max_participants''"
    by (simp add: materialise_def map_of_dict_set)
  from Cons have IH: "find_all s ?q = Inr (filter (capacity_at_least n) (map materialise s))"
    by simp
  from Cons.prems kd have ty: "capacity_typed (k, d)" by simp
  have "match_query ?doc [(''max_participants'', VDict [(''$gte'', VInt n)])]
        = Inr (capacity_at_least n ?doc)"
  proof (cases "map_of d ''max_participants''")
    case None
    with m show ?thesis by (simp add: field_value_def capacity_at_least_def)
  next
    case (Some v)
    with ty have "is_number v" by (simp add: capacity_typed_def)
    with Some m show ?thesis
      by (simp add: field_value_def capacity_at_least_def check_value_def py_lt_num not_less
          split: bool.splits)
  qed
  with IH kd show ?case by (simp add: mat)
qed

subsection \<open>The matcher against the specification\<close>

lemma segments_plain: "CHR ''.'' \<notin> set s \<Longrightarrow> segments s = [s]"
  by (subst segments.simps) simp

lemma segments_dot: "segments (CHR ''.'' # cs) = [] # segments cs"
  by (subst segments.simps) simp

lemma segments_char:
  "c \<noteq> CHR ''.'' \<Longrightarrow>
   segments (c # cs) = (case segments cs of [] \<Rightarrow> [[c]] | part # parts \<Rightarrow> (c # part) # parts)"
proof (cases "CHR ''.'' \<in> set cs")
  case True
  assume c: "c \<noteq> CHR ''.''"
  from True c have "segments (c # cs)
      = (c # takeWhile (\<lambda>c. c \<noteq> CHR ''.'') cs) # segments (tl (dropWhile (\<lambda>c. c \<noteq> CHR ''.'') cs))"
    by (subst segments.simps) simp
  moreover from True have "segments cs
      = takeWhile (\<lambda>c. c \<noteq> CHR ''.'') cs # segments (tl (dropWhile (\<lambda>c. c \<noteq> CHR ''.'') cs))"
    by (subst segments.simps) simp
  ultimately show ?thesis by simp
next
  case False
  assume c: "c \<noteq> CHR ''.''"
  with False show ?thesis by (simp add: segments_plain)
qed

lemma split_dot_segments: "split_dot s = segments s"
  by (induction s) (simp_all add: segments_plain segments_dot segments_char)

lemma traverse_get_path: "ps \<noteq> [] \<Longrightarrow> traverse (VDict d) ps = get_path d ps"
proof (induction d ps rule: get_path.induct)
  case (1 d)
  then show ?case by simp
next
  case (2 d p)
  show ?case by (simp split: option.splits)
next
  case (3 d p q ps)
  show ?case
  proof (cases "map_of d p")
    case None
    then show ?thesis by simp
  next
    case (Some v)
    show ?thesis
    proof (cases v)
      case (VDict d')
      with Some 3 show ?thesis by simp
    qed (use Some in simp_all)
  qed
qed

lemma segments_not_Nil: "segments s \<noteq> []"
  by (subst segments.simps) simp

lemma field_value_resolve: "field_value doc key = resolve doc key"
proof (cases "CHR ''.'' \<in> set key")
  case True
  then show ?thesis
    by (simp add: field_value_def resolve_def split_dot_segments traverse_get_path segments_not_Nil)
next
  case False
  then show ?thesis by (simp add: field_value_def resolve_def segments_plain)
qed

lemma py_lt_numbers:
  "is_number a \<Longrightarrow> is_number b \<Longrightarrow> py_lt a b = Inr (num_of a < num_of b)"
  by (cases a) auto

lemma py_lt_strs: "is_str a \<Longrightarrow> is_str b \<Longrightarrow> py_lt a b = Inr (str_of a < str_of b)"
  by (cases a; cases b) auto

lemma py_lt_at_least: "at_least a b = Some r \<Longrightarrow> py_lt a b = Inr (\<not> r)"
  by (auto simp: at_least_def py_lt_numbers py_lt_strs not_le split: if_splits)

lemma check_value_holds:
  assumes "condition_of v = Some c" and "holds c cur = Some r"
  shows "check_value cur v = Inr r"
proof (cases v)
  case (VDict ops)
  with assms(1) obtain op operand where ops: "ops = [(op, operand)]"
    by (auto split: list.splits prod.splits)
  show ?thesis
  proof (cases "op = ''$in''")
    case True
    with assms VDict ops obtain vs where "operand = VList vs" "c = In vs"
      by (auto split: val.splits)
    with assms(2) True VDict ops show ?thesis
      by (cases cur) (simp_all add: check_value_def any_in_list)
  next
    case False
    show ?thesis
    proof (cases "op = ''$gte''")
      case True
      with assms VDict ops have "at_least cur operand = Some r" by auto
      from py_lt_at_least[OF this] True VDict ops show ?thesis
        by (simp add: check_value_def)
    next
      case nge: False
      with False assms VDict ops have lte: "op = ''$lte''" and "at_least operand cur = Some r"
        by (auto split: if_splits)
      from py_lt_at_least[OF this(2)] lte VDict ops show ?thesis
        by (simp add: check_value_def py_gt_def)
    qed
  qed
qed (use assms in \<open>auto simp: check_value_def\<close>)

lemma match_query_satisfies_one:
  assumes "satisfies doc (k, v) = Some r"
  shows "match_query doc ((k, v) # query) = (if r then match_query doc query else Inr False)"
proof -
  from assms obtain c where c: "condition_of v = Some c"
    by (auto simp: satisfies_def split: option.splits)
  show ?thesis
  proof (cases "field_value doc k")
    case None
    with assms c show ?thesis by (simp add: satisfies_def field_value_resolve)
  next
    case (Some cur)
    with assms c have "holds c cur = Some r" by (simp add: satisfies_def field_value_resolve)
    from check_value_holds[OF c this] Some show ?thesis by simp
  qed
qed

lemma match_query_satisfies:
  "list_all (\<lambda>clause. satisfies doc clause \<noteq> None) query \<Longrightarrow>
   match_query doc query = Inr (list_all (\<lambda>clause. satisfies doc clause = Some True) query)"
proof (induction query)
  case Nil
  show ?case by simp
next
  case (Cons cl query)
  obtain k v where cl: "cl = (k, v)" by (cases cl)
  from Cons.prems cl obtain r where r: "satisfies doc (k, v) = Some r" by auto
  from Cons have IH: "match_query doc query
     = Inr (list_all (\<lambda>clause. satisfies doc clause = Some True) query)" by simp
  show ?case unfolding cl match_query_satisfies_one[OF r] using r IH by simp
qed

lemma clause_sat_satisfies:
  assumes "satisfies doc (k, v) = Some r"
  shows "clause_sat doc (k, v) = r \<and> \<not> clause_raises doc (k, v)"
proof -
  from assms obtain c where c: "condition_of v = Some c"
    by (auto simp: satisfies_def split: option.splits)
  show ?thesis
  proof (cases "field_value doc k")
    case None
    with assms c show ?thesis
      by (simp add: satisfies_def field_value_resolve[symmetric] clause_sat_def clause_raises_def)
  next
    case (Some cur)
    with assms c have "holds c cur = Some r"
      by (simp add: satisfies_def field_value_resolve[symmetric])
    from check_value_holds[OF c this] Some show ?thesis
      by (simp add: clause_sat_def clause_raises_def)
  qed
qed

lemma literal_clause_sat:
  assumes "\<forall>ops. v \<noteq> VDict ops"
  shows "clause_sat doc (k, v) \<longleftrightarrow> (\<exists>cur. resolve doc k = Some cur \<and> py_eq cur v)"
proof -
  from assms have "check_value cur v = Inr (py_eq cur v)" for cur
    by (cases v) (simp_all add: check_value_def)
  then show ?thesis
    by (simp add: clause_sat_def field_value_resolve split: option.splits)
qed

subsection \<open>Pushing and aggregating\<close>

lemma py_eq_refl_hashable: "hashable k \<Longrightarrow> py_eq k k"
  by (cases k) auto

lemma store_get_set: "py_eq k k \<Longrightarrow> store_get (store_set s k d) k = Some d"
  by (induction s k d rule: store_set.induct) auto

lemma push_one:
  "list_or_absent d f \<Longrightarrow>
   push_all d [(f, v)] = Inr (dict_set d f (VList (field_list d f @ [v])))"
  by (auto simp: list_or_absent_def field_list_def split: option.splits val.splits)

lemma strs_of_typed: "list_all is_str ds \<Longrightarrow> map (VStr \<circ> str_of) ds = ds"
proof (induction ds)
  case Nil
  show ?case by simp
next
  case (Cons x ds)
  then show ?case by (cases x) simp_all
qed

lemma in_dict_keys:
  "list_ex (\<lambda>kv. fst kv = k) d \<longleftrightarrow> map_of d k \<noteq> None"
  by (induction d) auto

lemma days_of_typed: "days_typed doc_data \<Longrightarrow> days_of doc_data = Inr (map VStr (doc_days doc_data))"
proof (cases "map_of doc_data ''schedule_details''")
  case None
  then show ?thesis by (simp add: days_of_def doc_days_def)
next
  case (Some sd)
  assume t: "days_typed doc_data"
  with Some obtain d where sd: "sd = VDict d"
    by (cases sd) (simp_all add: days_typed_def)
  show ?thesis
  proof (cases "map_of d ''days''")
    case None
    with Some sd show ?thesis
      by (simp add: days_of_def doc_days_def in_dict_keys)
  next
    case (Some ds)
    with t \<open>map_of doc_data ''schedule_details'' = Some sd\<close> sd
    obtain xs where ds: "ds = VList xs" and xs: "list_all is_str xs"
      by (cases ds) (simp_all add: days_typed_def)
    with Some sd \<open>map_of doc_data ''schedule_details'' = Some sd\<close> show ?thesis
      by (simp add: days_of_def doc_days_def in_dict_keys strs_of_typed)
  qed
qed

lemma set_add_str:
  "set_add (map VStr bs) (VStr x) = map VStr (if x \<in> set bs then bs else bs @ [x])"
  by (auto simp: set_add_def list_ex_iff)

lemma add_days_strs:
  "\<exists>cs. add_days (map VStr bs) (map VStr ds) = Inr (map VStr cs)
      \<and> set cs = set bs \<union> set ds \<and> (distinct bs \<longrightarrow> distinct cs)"
proof (induction ds arbitrary: bs)
  case Nil
  show ?case by (intro exI[of _ bs]) simp
next
  case (Cons x ds)
  let ?bs = "if x \<in> set bs then bs else bs @ [x]"
  from Cons[of ?bs] obtain cs where
    "add_days (map VStr ?bs) (map VStr ds) = Inr (map VStr cs)"
    "set cs = set ?bs \<union> set ds" "distinct ?bs \<longrightarrow> distinct cs" by blast
  then show ?case
    by (intro exI[of _ cs]) (auto simp: set_add_str split: if_splits)
qed

lemma collect_days_strs:
  "list_all days_typed docs \<Longrightarrow>
   \<exists>cs. collect_days (map VStr bs) docs = Inr (map VStr cs)
      \<and> set cs = set bs \<union> (\<Union>d\<in>set docs. set (doc_days d)) \<and> (distinct bs \<longrightarrow> distinct cs)"
proof (induction docs arbitrary: bs)
  case Nil
  show ?case by (intro exI[of _ bs]) simp
next
  case (Cons d docs)
  then have d: "days_of d = Inr (map VStr (doc_days d))" and rest: "list_all days_typed docs"
    by (simp_all add: days_of_typed)
  from add_days_strs[of bs "doc_days d"] obtain cs where
    cs: "add_days (map VStr bs) (map VStr (doc_days d)) = Inr (map VStr cs)"
    "set cs = set bs \<union> set (doc_days d)" "distinct bs \<longrightarrow> distinct cs" by blast
  from Cons.IH[OF rest, of cs] obtain es where
    es: "collect_days (map VStr cs) docs = Inr (map VStr es)"
    "set es = set cs \<union> (\<Union>d\<in>set docs. set (doc_days d))" "distinct cs \<longrightarrow> distinct es"
    by blast
  from d cs es show ?case
    by (intro exI[of _ es]) auto
qed

lemma insort_strs:
  "insort_key str_of (VStr x) (map VStr ys) = map VStr (insort x ys)"
  by (induction ys) auto

lemma sort_strs: "sort_key str_of (map VStr bs) = map VStr (sort bs)"
  by (induction bs) (simp_all add: insort_strs)

lemma py_sorted_strs: "py_sorted (map VStr bs) = Inr (map VStr (sort bs))"
proof (cases bs)
  case Nil
  then show ?thesis by (simp add: py_sorted_def)
next
  case (Cons x xs)
  show ?thesis
  proof (cases xs)
    case Nil
    with Cons show ?thesis by (simp add: py_sorted_def)
  next
    case (Cons y ys)
    have "list_all is_str (map VStr bs)" by (simp add: list_all_iff)
    moreover have "\<not> list_all is_number (map VStr bs)"
      using \<open>bs = x # xs\<close> by simp
    moreover have "\<not> length (map VStr bs) \<le> 1"
      using \<open>bs = x # xs\<close> Cons by simp
    ultimately show ?thesis
      unfolding py_sorted_def by (simp only: if_False if_True sort_strs)
  qed
qed

lemma aggregate_typed:
  assumes "list_all days_typed (map snd s)"
  shows "aggregate s pipeline
    = Inr (map (\<lambda>x. VDict [(''_id'', VStr x)])
            (sorted_list_of_set (\<Union>kd\<in>set s. set (doc_days (snd kd)))))"
proof -
  from collect_days_strs[OF assms, of "[]"] obtain cs where
    cs: "collect_days [] (map snd s) = Inr (map VStr cs)"
    "set cs = (\<Union>d\<in>set (map snd s). set (doc_days d))" "distinct cs" by auto
  have "sorted_list_of_set (set cs) = sort cs"
    using cs(3) by (simp add: sorted_list_of_set_sort_remdups distinct_remdups_id)
  moreover have "set cs = (\<Union>kd\<in>set s. set (doc_days (snd kd)))"
    using cs(2) by simp
  ultimately show ?thesis
    using cs(1) by (simp add: aggregate_def py_sorted_strs comp_def)
qed

subsection \<open>Deep copies\<close>




































subsection \<open>\<^verbatim>\<open>update_one\<close> on a key that is present\<close>

text \<open>
  C9: when the filter's key is in the collection, \<^verbatim>\<open>update_one\<close> reports
  \<^verbatim>\<open>modified_count\<close> 1 whenever it returns, also when nothing changes: an update
  with neither \<^verbatim>\<open>$push\<close> nor \<^verbatim>\<open>$pull\<close>, or a \<^verbatim>\<open>$pull\<close> of a value the
  field does not hold or of a field the document does not have, returns the
  collection as it was with count 1. It does return on every well-typed update.
\<close>

theorem update_one_count_when_found:
  assumes q: "map_of q ''_id'' = Some k" and h: "hashable k" and g: "store_get s k = Some d"
  shows "(\<forall>s' n. update_one s (VDict q) u = Inr (s', n) \<longrightarrow> n = 1)
    \<and> (map_of u ''$push'' = None \<and> map_of u ''$pull'' = None
         \<longrightarrow> update_one s (VDict q) u = Inr (s, 1))
    \<and> (\<forall>f v xs. map_of d f = Some (VList xs) \<and> \<not> list_ex (py_eq v) xs
         \<longrightarrow> update_one s (VDict q) [(''$pull'', VDict [(f, v)])] = Inr (s, 1))
    \<and> (\<forall>f v. map_of d f = None
         \<longrightarrow> update_one s (VDict q) [(''$pull'', VDict [(f, v)])] = Inr (s, 1))
    \<and> (group_ok d u ''$push'' \<and> group_ok d u ''$pull''
         \<longrightarrow> (\<exists>s'. update_one s (VDict q) u = Inr (s', 1)))"
proof (intro conjI allI impI)
  fix s' n
  assume "update_one s (VDict q) u = Inr (s', n)"
  then show "n = 1"
    unfolding update_one_found[OF q h g] by (auto split: sum.splits)
next
  assume "map_of u ''$push'' = None \<and> map_of u ''$pull'' = None"
  then show "update_one s (VDict q) u = Inr (s, 1)"
    unfolding update_one_found[OF q h g]
    by (simp add: apply_group_def store_set_same[OF g])
next
  fix f v xs
  assume "map_of d f = Some (VList xs) \<and> \<not> list_ex (py_eq v) xs"
  then show "update_one s (VDict q) [(''$pull'', VDict [(f, v)])] = Inr (s, 1)"
    unfolding update_one_found[OF q h g]
    by (simp add: apply_group_def store_set_same[OF g])
next
  fix f v
  assume "map_of d f = None"
  then show "update_one s (VDict q) [(''$pull'', VDict [(f, v)])] = Inr (s, 1)"
    unfolding update_one_found[OF q h g]
    by (simp add: apply_group_def store_set_same[OF g])
next
  assume ok: "group_ok d u ''$push'' \<and> group_ok d u ''$pull''"
  have "\<exists>d1. apply_group push_all ''$push'' u d = Inr d1
          \<and> (\<forall>g. list_or_absent d g \<longrightarrow> list_or_absent d1 g)"
  proof (cases "map_of u ''$push''")
    case None
    then show ?thesis by (simp add: apply_group_def)
  next
    case (Some w)
    with ok obtain ps where "w = VDict ps" "list_all (list_or_absent d) (map fst ps)"
      by (auto simp: group_ok_def split: val.splits)
    with Some push_all_ok[of d ps] show ?thesis by (simp add: apply_group_def)
  qed
  then obtain d1 where d1: "apply_group push_all ''$push'' u d = Inr d1"
    and keep: "\<forall>g. list_or_absent d g \<longrightarrow> list_or_absent d1 g" by blast
  have "\<exists>d2. apply_group pull_all ''$pull'' u d1 = Inr d2"
  proof (cases "map_of u ''$pull''")
    case None
    then show ?thesis by (simp add: apply_group_def)
  next
    case (Some w)
    with ok obtain pl where w: "w = VDict pl" and "list_all (list_or_absent d) (map fst pl)"
      by (auto simp: group_ok_def split: val.splits)
    with keep have "list_all (list_or_absent d1) (map fst pl)"
      by (simp add: list_all_iff)
    with Some w pull_all_ok[of d1 pl] show ?thesis by (simp add: apply_group_def)
  qed
  then obtain d2 where "apply_group pull_all ''$pull'' u d1 = Inr d2" by blast
  with d1 show "\<exists>s'. update_one s (VDict q) u = Inr (s', 1)"
    unfolding update_one_found[OF q h g] by simp
qed

theorem update_one_count_when_found_witness:
  "update_one [(VStr ''Chess Club'', [(''participants'', VList [VStr ''a@m.edu''])])]
     (VDict [(''_id'', VStr ''Chess Club'')])
     [(''$pull'', VDict [(''participants'', VStr ''b@m.edu'')])]
   = Inr ([(VStr ''Chess Club'', [(''participants'', VList [VStr ''a@m.edu''])])], 1)"
  using update_one_count_when_found
    [of "[(''_id'', VStr ''Chess Club'')]" "VStr ''Chess Club''"
        "[(VStr ''Chess Club'', [(''participants'', VList [VStr ''a@m.edu''])])]"
        "[(''participants'', VList [VStr ''a@m.edu''])]"
        "[(''$pull'', VDict [(''participants'', VStr ''b@m.edu'')])]"]
  by simp

subsection \<open>\<^verbatim>\<open>$pull\<close>\<close>

text \<open>
  C1: \<^verbatim>\<open>$pull\<close> of a value from an array field is to remove every occurrence of the
  value. The source calls \<^verbatim>\<open>list.remove\<close> once, which drops the first occurrence
  only: on a field holding the value twice, the second occurrence stays.
\<close>

theorem pull_removes_first_occurrence_only:
  "update_one
     [(VStr ''Chess Club'', [(''participants'', VList [VStr ''a@m.edu'', VStr ''b@m.edu'', VStr ''a@m.edu''])])]
     (VDict [(''_id'', VStr ''Chess Club'')])
     [(''$pull'', VDict [(''participants'', VStr ''a@m.edu'')])]
   = Inr ([(VStr ''Chess Club'', [(''participants'', VList [VStr ''b@m.edu'', VStr ''a@m.edu''])])], 1)"
  by (simp add: update_one_def apply_group_def dict_set_def)

subsection \<open>\<^verbatim>\<open>count_documents\<close>\<close>

text \<open>
  C2: \<^verbatim>\<open>count_documents\<close> is to return the number of documents that match the
  filter. The source returns \<^verbatim>\<open>len(self.data)\<close> and never reads the filter: on a
  collection of one document that the filter rejects (\<^verbatim>\<open>find\<close> returns nothing
  for it), the count is 1.
\<close>

theorem count_documents_ignores_filter:
  "count_documents [(VStr ''Chess Club'', [(''max_participants'', VInt 12)])]
     (VDict [(''max_participants'', VDict [(''$gte'', VInt 20)])]) = 1
   \<and> find_all [(VStr ''Chess Club'', [(''max_participants'', VInt 12)])]
     (VDict [(''max_participants'', VDict [(''$gte'', VInt 20)])]) = Inr []"
  by (simp add: count_documents_def dict_set_def field_value_def check_value_def)

subsection \<open>The query matcher\<close>

text \<open>
  C3: the matcher accepts a document exactly when every clause of the filter is
  satisfied, and the empty filter accepts every document. What a clause asks is fixed
  apart from the source: the key resolves as the specification's path does
  (\<open>resolve\<close>), a literal clause is satisfied exactly when the path resolves to a
  value equal to the literal, and on every clause of the specification's filter
  language the matcher's test is \<open>satisfies\<close>, raising nothing; so on a filter of
  such clauses the matcher returns their conjunction. A clause whose key names nothing
  in the document (a missing top-level field, or a dotted path that does not lead
  through dictionary keys) is not satisfied and does not raise, so the document is
  rejected with \<open>Inr False\<close> unless an earlier clause raised. A key without a dot is
  looked up in the document; a key of two parts is looked up in the dictionary its
  first part names.
\<close>

theorem match_query_conjunction:
  "(match_query doc query = Inr True \<longleftrightarrow> list_all (clause_sat doc) query)
   \<and> match_query doc [] = Inr True
   \<and> (field_value doc k = None \<longrightarrow> \<not> clause_sat doc (k, v) \<and> \<not> clause_raises doc (k, v))
   \<and> (field_value doc k = None \<and> \<not> list_ex (clause_raises doc) pre
        \<longrightarrow> match_query doc (pre @ (k, v) # rest) = Inr False)
   \<and> (field_value doc k = None \<and> (k, v) \<in> set query \<longrightarrow> match_query doc query \<noteq> Inr True)
   \<and> (CHR ''.'' \<notin> set k \<longrightarrow> field_value doc k = map_of doc k)
   \<and> (CHR ''.'' \<notin> set a \<and> CHR ''.'' \<notin> set b
        \<longrightarrow> field_value doc (a @ CHR ''.'' # b)
            = (case map_of doc a of Some (VDict d) \<Rightarrow> map_of d b | _ \<Rightarrow> None))
   \<and> field_value doc k = resolve doc k
   \<and> (\<forall>r. satisfies doc (k, v) = Some r
        \<longrightarrow> clause_sat doc (k, v) = r \<and> \<not> clause_raises doc (k, v)
          \<and> match_query doc [(k, v)] = Inr r)
   \<and> ((\<forall>ops. v \<noteq> VDict ops)
        \<longrightarrow> (clause_sat doc (k, v) \<longleftrightarrow> (\<exists>cur. resolve doc k = Some cur \<and> py_eq cur v)))
   \<and> (list_all (\<lambda>clause. satisfies doc clause \<noteq> None) query
        \<longrightarrow> match_query doc query
            = Inr (list_all (\<lambda>clause. satisfies doc clause = Some True) query))"
proof (intro conjI impI allI)
  show "match_query doc query = Inr True \<longleftrightarrow> list_all (clause_sat doc) query"
    by (rule match_query_sat)
  show "match_query doc [] = Inr True" by simp
  show "\<not> clause_sat doc (k, v)" if "field_value doc k = None"
    using that by (simp add: clause_sat_def)
  show "\<not> clause_raises doc (k, v)" if "field_value doc k = None"
    using that by (simp add: clause_raises_def)
  show "match_query doc (pre @ (k, v) # rest) = Inr False"
    if "field_value doc k = None \<and> \<not> list_ex (clause_raises doc) pre"
    using that by (simp add: match_query_missing)
  show "match_query doc query \<noteq> Inr True" if "field_value doc k = None \<and> (k, v) \<in> set query"
  proof -
    from that have "\<not> clause_sat doc (k, v)" by (simp add: clause_sat_def)
    with that have "\<not> list_all (clause_sat doc) query" by (auto simp: list_all_iff)
    then show ?thesis by (simp add: match_query_sat)
  qed
  show "field_value doc k = map_of doc k" if "CHR ''.'' \<notin> set k"
    using that by (simp add: field_value_def)
  show "field_value doc (a @ CHR ''.'' # b)
            = (case map_of doc a of Some (VDict d) \<Rightarrow> map_of d b | _ \<Rightarrow> None)"
    if "CHR ''.'' \<notin> set a \<and> CHR ''.'' \<notin> set b"
    using that
    by (simp add: field_value_def split_dot_append split_dot_plain
        split: option.splits val.splits)
  show "field_value doc k = resolve doc k" by (rule field_value_resolve)
  show "clause_sat doc (k, v) = r" if "satisfies doc (k, v) = Some r" for r
    using clause_sat_satisfies[OF that] by simp
  show "\<not> clause_raises doc (k, v)" if "satisfies doc (k, v) = Some r" for r
    using clause_sat_satisfies[OF that] by simp
  show "match_query doc [(k, v)] = Inr r" if "satisfies doc (k, v) = Some r" for r
    using match_query_satisfies_one[OF that, of "[]"] by simp
  show "clause_sat doc (k, v) \<longleftrightarrow> (\<exists>cur. resolve doc k = Some cur \<and> py_eq cur v)"
    if "\<forall>ops. v \<noteq> VDict ops"
    using that by (rule literal_clause_sat)
  show "match_query doc query
            = Inr (list_all (\<lambda>clause. satisfies doc clause = Some True) query)"
    if "list_all (\<lambda>clause. satisfies doc clause \<noteq> None) query"
    using that by (rule match_query_satisfies)
qed

theorem match_query_conjunction_witness:
  "match_query
     [(''schedule_details'', VDict [(''days'', VList [VStr ''Monday''])]), (''max_participants'', VInt 12)]
     [(''max_participants'', VInt 12), (''schedule_details.room'', VStr ''B1'')] = Inr False
   \<and> field_value
     [(''schedule_details'', VDict [(''days'', VList [VStr ''Monday''])]), (''max_participants'', VInt 12)]
     ''schedule_details.days'' = Some (VList [VStr ''Monday''])
   \<and> match_query
     [(''schedule_details'', VDict [(''days'', VList [VStr ''Monday''])]), (''max_participants'', VInt 12)]
     [(''max_participants'', VDict [(''$gte'', VInt 10)]),
      (''schedule_details.days'', VDict [(''$in'', VList [VStr ''Friday'', VStr ''Monday''])]),
      (''max_participants'', VInt 12)] = Inr True
   \<and> match_query
     [(''schedule_details'', VDict [(''days'', VList [VStr ''Monday''])]), (''max_participants'', VInt 12)]
     [(''max_participants'', VInt 13)] = Inr False"
  using match_query_conjunction
    [of "[(''schedule_details'', VDict [(''days'', VList [VStr ''Monday''])]), (''max_participants'', VInt 12)]"
        "[(''max_participants'', VDict [(''$gte'', VInt 10)]),
          (''schedule_details.days'', VDict [(''$in'', VList [VStr ''Friday'', VStr ''Monday''])]),
          (''max_participants'', VInt 12)]"
        "''schedule_details.room''" "VStr ''B1''" "[(''max_participants'', VInt 12)]" "[]"
        "''schedule_details''" "''days''"]
    match_query_conjunction
    [of "[(''schedule_details'', VDict [(''days'', VList [VStr ''Monday''])]), (''max_participants'', VInt 12)]"
        "[]" "''max_participants''" "VInt 13" "[]" "[]" "[]" "[]"]
  by (simp add: field_value_def clause_raises_def check_value_def satisfies_def resolve_def
      segments.simps at_least_def)

text \<open>
  C4: on a list-valued field, a \<^verbatim>\<open>$in\<close> clause with a list matches exactly when some
  element of the operand equals some element of the field (for lists of strings: when
  the two share an element); on integers and on strings, \<^verbatim>\<open>$gte\<close> matches exactly
  when the field is at least the operand and \<^verbatim>\<open>$lte\<close> when it is at most the
  operand; and \<^verbatim>\<open>find\<close> with \<^verbatim>\<open>{"max_participants": {"$gte": 20}}\<close> returns
  exactly the documents whose capacity is at least 20, in the collection's order, when
  every capacity present is a number.
\<close>

theorem operator_clauses:
  "(field_value doc key = Some (VList xs)
      \<longrightarrow> match_query doc [(key, VDict [(''$in'', VList vs)])]
          = Inr (\<exists>item\<in>set vs. \<exists>x\<in>set xs. py_eq item x))
   \<and> (field_value doc key = Some (VList (map VStr ys))
      \<longrightarrow> match_query doc [(key, VDict [(''$in'', VList (map VStr ws))])]
          = Inr (set ws \<inter> set ys \<noteq> {}))
   \<and> (field_value doc key = Some (VInt a)
      \<longrightarrow> match_query doc [(key, VDict [(''$gte'', VInt b)])] = Inr (b \<le> a)
        \<and> match_query doc [(key, VDict [(''$lte'', VInt b)])] = Inr (a \<le> b))
   \<and> (field_value doc key = Some (VStr t)
      \<longrightarrow> match_query doc [(key, VDict [(''$gte'', VStr u)])] = Inr (u \<le> t)
        \<and> match_query doc [(key, VDict [(''$lte'', VStr u)])] = Inr (t \<le> u))
   \<and> (list_all capacity_typed s
      \<longrightarrow> find_all s (VDict [(''max_participants'', VDict [(''$gte'', VInt 20)])])
          = Inr (filter (capacity_at_least 20) (map materialise s)))"
proof (intro conjI impI)
  assume f: "field_value doc key = Some (VList xs)"
  then show "match_query doc [(key, VDict [(''$in'', VList vs)])]
          = Inr (\<exists>item\<in>set vs. \<exists>x\<in>set xs. py_eq item x)"
    by (simp add: check_value_def any_in_list list_ex_iff split: bool.splits)
next
  assume f: "field_value doc key = Some (VList (map VStr ys))"
  have "any_in (map VStr ws) (VList (map VStr ys)) = Inr (set ws \<inter> set ys \<noteq> {})"
    unfolding any_in_list overlap_strings ..
  with f show "match_query doc [(key, VDict [(''$in'', VList (map VStr ws))])]
          = Inr (set ws \<inter> set ys \<noteq> {})"
    by (simp add: check_value_def split: bool.splits)
next
  assume f: "field_value doc key = Some (VInt a)"
  then show "match_query doc [(key, VDict [(''$gte'', VInt b)])] = Inr (b \<le> a)"
    by (simp add: check_value_def not_less split: bool.splits)
  from f show "match_query doc [(key, VDict [(''$lte'', VInt b)])] = Inr (a \<le> b)"
    by (simp add: check_value_def py_gt_def not_less split: bool.splits)
next
  assume f: "field_value doc key = Some (VStr t)"
  then show "match_query doc [(key, VDict [(''$gte'', VStr u)])] = Inr (u \<le> t)"
    by (simp add: check_value_def not_less split: bool.splits)
  from f show "match_query doc [(key, VDict [(''$lte'', VStr u)])] = Inr (t \<le> u)"
    by (simp add: check_value_def py_gt_def not_less split: bool.splits)
next
  assume "list_all capacity_typed s"
  then show "find_all s (VDict [(''max_participants'', VDict [(''$gte'', VInt 20)])])
          = Inr (filter (capacity_at_least 20) (map materialise s))"
    by (rule find_all_gte)
qed

theorem operator_clauses_witness:
  "find_all
     [(VStr ''Chess Club'', [(''max_participants'', VInt 12)]),
      (VStr ''Programming Class'', [(''max_participants'', VInt 20)]),
      (VStr ''Morning Fitness'', [(''max_participants'', VInt 30)])]
     (VDict [(''max_participants'', VDict [(''$gte'', VInt 20)])])
   = Inr [[(''max_participants'', VInt 20), (''_id'', VStr ''Programming Class'')],
          [(''max_participants'', VInt 30), (''_id'', VStr ''Morning Fitness'')]]
   \<and> match_query [(''schedule_details'', VDict [(''days'', VList [VStr ''Monday'', VStr ''Friday''])])]
       [(''schedule_details.days'', VDict [(''$in'', VList [VStr ''Saturday'', VStr ''Friday''])])]
     = Inr True"
  using operator_clauses
    [of "[(''schedule_details'', VDict [(''days'', VList [VStr ''Monday'', VStr ''Friday''])])]"
        "''schedule_details.days''" "[VStr ''Monday'', VStr ''Friday'']"
        "[VStr ''Saturday'', VStr ''Friday'']" "[]" "[]" 0 0 "[]" "[]"
        "[(VStr ''Chess Club'', [(''max_participants'', VInt 12)]),
          (VStr ''Programming Class'', [(''max_participants'', VInt 20)]),
          (VStr ''Morning Fitness'', [(''max_participants'', VInt 30)])]"]
  by (simp add: field_value_def capacity_typed_def capacity_at_least_def materialise_def
      dict_set_def)

text \<open>
  C10: a clause whose value is a dictionary with none of \<^verbatim>\<open>$in\<close>, \<^verbatim>\<open>$gte\<close>,
  \<^verbatim>\<open>$lte\<close> passes whenever its key names a value in the document, whatever that
  value is: the clause can be dropped from the filter, and alone it accepts the
  document.
\<close>

theorem unrecognised_operator_clause:
  assumes "map_of ops ''$in'' = None" and "map_of ops ''$gte'' = None"
    and "map_of ops ''$lte'' = None" and "field_value doc key = Some cur"
  shows "check_value cur (VDict ops) = Inr True
    \<and> match_query doc ((key, VDict ops) # query) = match_query doc query
    \<and> match_query doc [(key, VDict ops)] = Inr True"
  using assms by (simp add: check_value_def)

theorem unrecognised_operator_clause_witness:
  "match_query [(''max_participants'', VInt 12)]
     [(''max_participants'', VDict [(''$gt'', VInt 100)])] = Inr True
   \<and> match_query [(''max_participants'', VInt 12)] [(''max_participants'', VDict [])] = Inr True"
  using unrecognised_operator_clause
      [of "[(''$gt'', VInt 100)]" "[(''max_participants'', VInt 12)]" "''max_participants''" "VInt 12"]
    unrecognised_operator_clause
      [of "[]" "[(''max_participants'', VInt 12)]" "''max_participants''" "VInt 12"]
  by (simp add: field_value_def)

subsection \<open>\<^verbatim>\<open>update_one\<close> without a target\<close>

text \<open>
  C7: when the filter is no dictionary, or has no \<^verbatim>\<open>_id\<close>, or its \<^verbatim>\<open>_id\<close> is a
  hashable value that equals no key of the collection, \<^verbatim>\<open>update_one\<close> returns the
  collection unchanged with \<^verbatim>\<open>modified_count\<close> 0 and raises nothing.
\<close>

theorem update_one_without_target:
  "((\<forall>q. query \<noteq> VDict q) \<longrightarrow> update_one s query u = Inr (s, 0))
   \<and> (map_of q ''_id'' = None \<longrightarrow> update_one s (VDict q) u = Inr (s, 0))
   \<and> (map_of q ''_id'' = Some k \<and> hashable k \<and> \<not> list_ex (\<lambda>kd. py_eq (fst kd) k) s
        \<longrightarrow> update_one s (VDict q) u = Inr (s, 0))"
proof (intro conjI impI)
  assume "\<forall>q. query \<noteq> VDict q"
  then show "update_one s query u = Inr (s, 0)"
    by (cases query) (simp_all add: update_one_def)
next
  assume "map_of q ''_id'' = None"
  then show "update_one s (VDict q) u = Inr (s, 0)"
    by (simp add: update_one_def)
next
  assume a: "map_of q ''_id'' = Some k \<and> hashable k \<and> \<not> list_ex (\<lambda>kd. py_eq (fst kd) k) s"
  then have "store_get s k = None" by (simp add: store_get_None)
  with a show "update_one s (VDict q) u = Inr (s, 0)"
    by (simp add: update_one_def)
qed

theorem update_one_without_target_witness:
  "update_one [(VStr ''Chess Club'', [(''participants'', VList [])])]
     (VDict [(''_id'', VStr ''nonexistent'')])
     [(''$push'', VDict [(''participants'', VStr ''a@m.edu'')])]
   = Inr ([(VStr ''Chess Club'', [(''participants'', VList [])])], 0)
   \<and> update_one [(VStr ''Chess Club'', [(''participants'', VList [])])]
     (VDict [(''name'', VStr ''Chess Club'')])
     [(''$push'', VDict [(''participants'', VStr ''a@m.edu'')])]
   = Inr ([(VStr ''Chess Club'', [(''participants'', VList [])])], 0)"
  using update_one_without_target
    [of "VDict [(''_id'', VStr ''nonexistent'')]"
        "[(VStr ''Chess Club'', [(''participants'', VList [])])]"
        "[(''$push'', VDict [(''participants'', VStr ''a@m.edu'')])]"
        "[(''_id'', VStr ''nonexistent'')]" "VStr ''nonexistent''"]
    update_one_without_target
    [of "VNone"
        "[(VStr ''Chess Club'', [(''participants'', VList [])])]"
        "[(''$push'', VDict [(''participants'', VStr ''a@m.edu'')])]"
        "[(''name'', VStr ''Chess Club'')]" "VNone"]
  by simp

subsection \<open>\<^verbatim>\<open>$push\<close>\<close>

text \<open>
  C5: for a document stored under key \<open>k\<close> whose field \<open>f\<close> is a list or absent,
  \<^verbatim>\<open>update_one\<close> with \<^verbatim>\<open>$push\<close> of \<open>v\<close> on \<open>f\<close> returns count 1 and leaves
  under \<open>k\<close> the document whose \<open>f\<close> is the former list followed by \<open>v\<close> once
  (the one-element list, in a new last field, when \<open>f\<close> was absent), every other
  field as before; \<^verbatim>\<open>find_one\<close> on \<open>k\<close> then returns that document with its key,
  and shows the list under \<open>f\<close> for every field but the key field itself.
\<close>

theorem push_appends_once:
  assumes q: "map_of q ''_id'' = Some k" and h: "hashable k" and g: "store_get s k = Some d"
    and l: "list_or_absent d f"
  shows "let d' = dict_set d f (VList (field_list d f @ [v])); s' = store_set s k d' in
      update_one s (VDict q) [(''$push'', VDict [(f, v)])] = Inr (s', 1)
    \<and> store_get s' k = Some d'
    \<and> map_of d' f = Some (VList (field_list d f @ [v]))
    \<and> (map_of d f = None \<longrightarrow> field_list d f = [] \<and> d' = d @ [(f, VList [v])])
    \<and> (\<forall>f'. f' \<noteq> f \<longrightarrow> map_of d' f' = map_of d f')
    \<and> find_one s' (VDict q) = Inr (Some (dict_set d' ''_id'' k))
    \<and> (f \<noteq> ''_id'' \<longrightarrow>
          map_of (dict_set d' ''_id'' k) f = Some (VList (field_list d f @ [v])))"
proof -
  let ?d' = "dict_set d f (VList (field_list d f @ [v]))"
  let ?s' = "store_set s k ?d'"
  have u: "update_one s (VDict q) [(''$push'', VDict [(f, v)])] = Inr (?s', 1)"
    unfolding update_one_found[OF q h g]
    by (simp add: apply_group_def push_one[OF l] del: push_all.simps)
  have sg: "store_get ?s' k = Some ?d'"
    by (rule store_get_set[OF py_eq_refl_hashable[OF h]])
  have fo: "find_one ?s' (VDict q) = Inr (Some (dict_set ?d' ''_id'' k))"
    using q h sg by (simp add: find_one_def)
  have new: "map_of d f = None \<longrightarrow> field_list d f = [] \<and> ?d' = d @ [(f, VList [v])]"
    by (simp add: dict_set_def field_list_def)
  from u sg fo new show ?thesis
    by (auto simp: Let_def map_of_dict_set)
qed

theorem push_appends_once_witness:
  "update_one
     [(VStr ''Chess Club'', [(''participants'', VList [VStr ''a@m.edu''])])]
     (VDict [(''_id'', VStr ''Chess Club'')])
     [(''$push'', VDict [(''participants'', VStr ''b@m.edu'')])]
   = Inr ([(VStr ''Chess Club'', [(''participants'', VList [VStr ''a@m.edu'', VStr ''b@m.edu''])])], 1)
   \<and> find_one
     [(VStr ''Chess Club'', [(''participants'', VList [VStr ''a@m.edu'', VStr ''b@m.edu''])])]
     (VDict [(''_id'', VStr ''Chess Club'')])
   = Inr (Some [(''participants'', VList [VStr ''a@m.edu'', VStr ''b@m.edu'']),
                (''_id'', VStr ''Chess Club'')])"
  using push_appends_once
    [of "[(''_id'', VStr ''Chess Club'')]" "VStr ''Chess Club''"
        "[(VStr ''Chess Club'', [(''participants'', VList [VStr ''a@m.edu''])])]"
        "[(''participants'', VList [VStr ''a@m.edu''])]"
        "''participants''" "VStr ''b@m.edu''"]
  by (simp add: list_or_absent_def field_list_def dict_set_def Let_def)

subsection \<open>The days aggregation\<close>

text \<open>
  C8: on a collection whose documents have the data model's shape, \<^verbatim>\<open>aggregate\<close>
  returns the distinct day names of all documents in ascending order, each wrapped
  as a record with the single field \<^verbatim>\<open>_id\<close>. The field is \<^verbatim>\<open>_id\<close>, as in the
  output of a \<^verbatim>\<open>$group\<close> stage, not \<^verbatim>\<open>day\<close>: over the days
  \<^verbatim>\<open>["Monday","Friday"]\<close> and \<^verbatim>\<open>["Friday"]\<close> the result is
  \<^verbatim>\<open>[{"_id":"Friday"},{"_id":"Monday"}]\<close>.
\<close>

theorem aggregate_unique_days:
  assumes "list_all days_typed (map snd s)"
  shows "aggregate s pipeline
    = Inr (map (\<lambda>day. VDict [(''_id'', VStr day)])
            (sorted_list_of_set (\<Union>kd\<in>set s. set (doc_days (snd kd)))))"
  using assms by (rule aggregate_typed)

theorem aggregate_unique_days_witness:
  "aggregate
     [(VStr ''Chess Club'', [(''schedule_details'', VDict [(''days'', VList [VStr ''Monday'', VStr ''Friday''])])]),
      (VStr ''Art Club'', [(''schedule_details'', VDict [(''days'', VList [VStr ''Friday''])])])]
     (VList [])
   = Inr [VDict [(''_id'', VStr ''Friday'')], VDict [(''_id'', VStr ''Monday'')]]"
proof -
  have t: "list_all days_typed (map snd
     [(VStr ''Chess Club'', [(''schedule_details'', VDict [(''days'', VList [VStr ''Monday'', VStr ''Friday''])])]),
      (VStr ''Art Club'', [(''schedule_details'', VDict [(''days'', VList [VStr ''Friday''])])])])"
    by (simp add: days_typed_def)
  have "(\<Union>kd\<in>set
     [(VStr ''Chess Club'', [(''schedule_details'', VDict [(''days'', VList [VStr ''Monday'', VStr ''Friday''])])]),
      (VStr ''Art Club'', [(''schedule_details'', VDict [(''days'', VList [VStr ''Friday''])])])].
       set (doc_days (snd kd))) = set [''Monday'', ''Friday'']"
    by (auto simp: doc_days_def)
  moreover have "sorted_list_of_set (set [''Monday'', ''Friday'']) = [''Friday'', ''Monday'']"
    by (simp add: sorted_list_of_set_sort_remdups less_eq_char_def less_char_def)
  ultimately show ?thesis
    using aggregate_unique_days[OF t, of "VList []"] by simp
qed

theorem aggregate_day_field_counterexample:
  "aggregate
     [(VStr ''Chess Club'', [(''schedule_details'', VDict [(''days'', VList [VStr ''Monday'', VStr ''Friday''])])]),
      (VStr ''Art Club'', [(''schedule_details'', VDict [(''days'', VList [VStr ''Friday''])])])]
     (VList [])
   \<noteq> Inr [VDict [(''day'', VStr ''Friday'')], VDict [(''day'', VStr ''Monday'')]]"
  by (simp add: aggregate_def days_of_def set_add_def py_sorted_def
      less_eq_char_def less_char_def)

subsection \<open>\<^verbatim>\<open>find_one\<close>\<close>




end
